theory Spec2Isabelle
  imports Complex_Main
begin

section \<open>Doubles\<close>

text \<open>
  The C++ type \<open>double\<close>, idealised: a finite value is an exact real (no rounding, no
  overflow), and the three special values of IEEE 754 are kept, so that a division by
  zero and a not-a-number stay visible. There is one zero; it divides like \<open>+0.0\<close>,
  which is what every zero divisor of this program is (a count or a converted size).
\<close>

datatype double = Finite real | PInf | NInf | NaN

fun dneg :: "double \<Rightarrow> double" where
  "dneg (Finite a) = Finite (- a)"
| "dneg PInf = NInf"
| "dneg NInf = PInf"
| "dneg NaN = NaN"

fun dadd :: "double \<Rightarrow> double \<Rightarrow> double" where
  "dadd NaN y = NaN"
| "dadd x NaN = NaN"
| "dadd PInf NInf = NaN"
| "dadd NInf PInf = NaN"
| "dadd PInf y = PInf"
| "dadd x PInf = PInf"
| "dadd NInf y = NInf"
| "dadd x NInf = NInf"
| "dadd (Finite a) (Finite b) = Finite (a + b)"

definition dsub :: "double \<Rightarrow> double \<Rightarrow> double" where
  "dsub x y = dadd x (dneg y)"

text \<open>The sign of a product or quotient with an infinite operand.\<close>

definition signed_inf :: "bool \<Rightarrow> double" where
  "signed_inf negative = (if negative then NInf else PInf)"

fun dmul :: "double \<Rightarrow> double \<Rightarrow> double" where
  "dmul NaN y = NaN"
| "dmul x NaN = NaN"
| "dmul (Finite a) (Finite b) = Finite (a * b)"
| "dmul (Finite a) PInf = (if a = 0 then NaN else signed_inf (a < 0))"
| "dmul (Finite a) NInf = (if a = 0 then NaN else signed_inf (0 < a))"
| "dmul PInf (Finite b) = (if b = 0 then NaN else signed_inf (b < 0))"
| "dmul NInf (Finite b) = (if b = 0 then NaN else signed_inf (0 < b))"
| "dmul PInf PInf = PInf"
| "dmul PInf NInf = NInf"
| "dmul NInf PInf = NInf"
| "dmul NInf NInf = PInf"

fun ddiv :: "double \<Rightarrow> double \<Rightarrow> double" where
  "ddiv NaN y = NaN"
| "ddiv x NaN = NaN"
| "ddiv (Finite a) (Finite b) =
     (if b = 0 then (if a = 0 then NaN else signed_inf (a < 0)) else Finite (a / b))"
| "ddiv (Finite a) PInf = Finite 0"
| "ddiv (Finite a) NInf = Finite 0"
| "ddiv PInf (Finite b) = signed_inf (b < 0)"
| "ddiv NInf (Finite b) = signed_inf (0 \<le> b)"
| "ddiv PInf y = NaN"
| "ddiv NInf y = NaN"

fun dabs :: "double \<Rightarrow> double" where
  "dabs (Finite a) = Finite \<bar>a\<bar>"
| "dabs PInf = PInf"
| "dabs NInf = PInf"
| "dabs NaN = NaN"

text \<open>\<open>x <= y\<close> on doubles: false as soon as one side is not a number.\<close>

fun dle :: "double \<Rightarrow> double \<Rightarrow> bool" where
  "dle NaN y = False"
| "dle x NaN = False"
| "dle NInf y = True"
| "dle x PInf = True"
| "dle x NInf = False"
| "dle PInf y = False"
| "dle (Finite a) (Finite b) = (a \<le> b)"

text \<open>The implicit conversion of a \<open>size_t\<close> to \<open>double\<close>.\<close>

definition of_size :: "nat \<Rightarrow> double" where
  "of_size n = Finite (real n)"

section \<open>Errors and collaborators\<close>

text \<open>
  \<open>OutOfRange\<close> is the exception \<open>std::out_of_range\<close> of \<open>vector::at\<close>;
  \<open>UncheckedIndex\<close> is an unchecked \<open>operator[]\<close> beyond the vector's size and
  \<open>DivisionByZero\<close> an integer division by zero, both undefined behaviour in C++.
\<close>

datatype error = OutOfRange | UncheckedIndex | DivisionByZero

text \<open>
  Modelled from the spec: the data accessor \<open>Data\<close>, of which the strategy uses
  \<open>get_outcome(sample)\<close> (a class label) and \<open>get_weight(sample)\<close>.
\<close>

record data =
  get_outcome :: "nat \<Rightarrow> nat"
  get_weight :: "nat \<Rightarrow> double"

text \<open>The calls made to the data accessor, in the order they are made.\<close>

datatype query = GetOutcome nat | GetWeight nat

text \<open>
  Modelled from the spec: the class \<open>PredictionValues\<close> (the per-leaf value table). It
  is constructed from the sequence of per-leaf vectors and the number of types, and exposes
  \<open>get_num_nodes()\<close>, \<open>empty(node)\<close> and \<open>get(node, type)\<close>. A leaf is flagged
  empty when its vector holds no element, which is how a leaf without samples is left;
  both accessors read the vectors with the checked \<open>at\<close>.
\<close>

record prediction_values =
  pv_values :: "double list list"
  pv_num_types :: nat

definition PredictionValues :: "double list list \<Rightarrow> nat \<Rightarrow> prediction_values" where
  "PredictionValues vals n = \<lparr>pv_values = vals, pv_num_types = n\<rparr>"

definition get_num_nodes :: "prediction_values \<Rightarrow> nat" where
  "get_num_nodes lv = length (pv_values lv)"

definition pv_empty :: "prediction_values \<Rightarrow> nat \<Rightarrow> error + bool" where
  "pv_empty lv node =
     (if node < length (pv_values lv) then Inr (pv_values lv ! node = []) else Inl OutOfRange)"

definition pv_get :: "prediction_values \<Rightarrow> nat \<Rightarrow> nat \<Rightarrow> error + double" where
  "pv_get lv node type =
     (if node < length (pv_values lv) then
        (if type < length (pv_values lv ! node) then Inr (pv_values lv ! node ! type)
         else Inl OutOfRange)
      else Inl OutOfRange)"

section \<open>The strategy\<close>

text \<open>
  The class \<open>ProbabilityPredictionStrategy\<close>: its number of classes and its debiaser.

  Modelled from the spec: the debiaser, called as
  \<open>bayes_debiaser.debias(var_between, group_noise, num_good_groups)\<close>, is a function
  of three doubles whose formula is defined elsewhere. It is a field of the record, so
  that every theorem holds for any debiaser; what a theorem needs of it is a hypothesis.
\<close>

record strategy =
  num_classes :: nat
  debias :: "double \<Rightarrow> double \<Rightarrow> double \<Rightarrow> double"

definition prediction_length :: "strategy \<Rightarrow> nat" where
  "prediction_length st = num_classes st"

definition predict :: "strategy \<Rightarrow> double list \<Rightarrow> double list" where
  "predict st average = average"

definition prediction_value_length :: "strategy \<Rightarrow> nat" where
  "prediction_value_length st = num_classes st"

definition compute_error ::
  "strategy \<Rightarrow> nat \<Rightarrow> double list \<Rightarrow> prediction_values \<Rightarrow> data \<Rightarrow> (double \<times> double) list" where
  "compute_error st sample average leaf_values d = [(NaN, NaN)]"

section \<open>Variance estimation\<close>

text \<open>
  The first inner loop of \<open>compute_variance\<close>: \<open>good_group\<close> starts true and is
  cleared by every empty leaf of the group; the loop does not stop early. \<open>base\<close> is
  \<open>group * ci_group_size\<close>.
\<close>

fun good_group_loop :: "prediction_values \<Rightarrow> nat \<Rightarrow> nat list \<Rightarrow> bool \<Rightarrow> error + bool" where
  "good_group_loop lv base [] good_group = Inr good_group"
| "good_group_loop lv base (j # js) good_group =
     (case pv_empty lv (base + j) of
        Inl e \<Rightarrow> Inl e
      | Inr b \<Rightarrow> good_group_loop lv base js (if b then False else good_group))"

text \<open>
  The second inner loop, over the leaves of a good group: the state is
  \<open>(psi_squared, group_psi)\<close>.
\<close>

fun psi_loop ::
  "prediction_values \<Rightarrow> nat \<Rightarrow> double \<Rightarrow> nat \<Rightarrow> nat list \<Rightarrow> double \<times> double
     \<Rightarrow> error + double \<times> double" where
  "psi_loop lv cls average_outcome base [] s = Inr s"
| "psi_loop lv cls average_outcome base (j # js) s =
     (case pv_get lv (base + j) cls of
        Inl e \<Rightarrow> Inl e
      | Inr v \<Rightarrow>
          (let psi_1 = dsub v average_outcome
           in psi_loop lv cls average_outcome base js
                (dadd (fst s) (dmul psi_1 psi_1), dadd (snd s) psi_1)))"

text \<open>The three accumulators of one class.\<close>

record accum =
  num_good_groups :: double
  psi_squared :: double
  psi_grouped_squared :: double

definition accum_init :: accum where
  "accum_init = \<lparr>num_good_groups = Finite 0, psi_squared = Finite 0,
                  psi_grouped_squared = Finite 0\<rparr>"

text \<open>The body of the loop over the groups; a group that is not good is skipped.\<close>

definition group_body ::
  "prediction_values \<Rightarrow> nat \<Rightarrow> nat \<Rightarrow> double \<Rightarrow> nat \<Rightarrow> accum \<Rightarrow> error + accum" where
  "group_body lv ci_group_size cls average_outcome grp acc =
     (case good_group_loop lv (grp * ci_group_size) [0..<ci_group_size] True of
        Inl e \<Rightarrow> Inl e
      | Inr good_group \<Rightarrow>
          if \<not> good_group then Inr acc
          else
            (case psi_loop lv cls average_outcome (grp * ci_group_size) [0..<ci_group_size]
                    (psi_squared acc, Finite 0) of
               Inl e \<Rightarrow> Inl e
             | Inr s \<Rightarrow>
                 (let group_psi = ddiv (snd s) (of_size ci_group_size)
                  in Inr \<lparr>num_good_groups = dadd (num_good_groups acc) (Finite 1),
                          psi_squared = fst s,
                          psi_grouped_squared =
                            dadd (psi_grouped_squared acc) (dmul group_psi group_psi)\<rparr>)))"

fun group_loop ::
  "prediction_values \<Rightarrow> nat \<Rightarrow> nat \<Rightarrow> double \<Rightarrow> nat list \<Rightarrow> accum \<Rightarrow> error + accum" where
  "group_loop lv ci_group_size cls average_outcome [] acc = Inr acc"
| "group_loop lv ci_group_size cls average_outcome (grp # grps) acc =
     (case group_body lv ci_group_size cls average_outcome grp acc of
        Inl e \<Rightarrow> Inl e
      | Inr acc' \<Rightarrow> group_loop lv ci_group_size cls average_outcome grps acc')"

text \<open>The three intermediate values computed after the loop over the groups.\<close>

definition var_between :: "accum \<Rightarrow> double" where
  "var_between acc = ddiv (psi_grouped_squared acc) (num_good_groups acc)"

definition var_total :: "nat \<Rightarrow> accum \<Rightarrow> double" where
  "var_total ci_group_size acc =
     ddiv (psi_squared acc) (dmul (num_good_groups acc) (of_size ci_group_size))"

definition group_noise :: "nat \<Rightarrow> accum \<Rightarrow> double" where
  "group_noise ci_group_size acc =
     ddiv (dsub (var_total ci_group_size acc) (var_between acc)) (of_size (ci_group_size - 1))"

definition var_debiased :: "strategy \<Rightarrow> nat \<Rightarrow> accum \<Rightarrow> double" where
  "var_debiased st ci_group_size acc =
     debias st (var_between acc) (group_noise ci_group_size acc) (num_good_groups acc)"

text \<open>
  The accumulators of one class after the loop over the groups. \<open>average.at(cls)\<close> is
  checked; the bound of the loop divides two \<open>size_t\<close>, with no check of the divisor.
\<close>

definition class_accum ::
  "prediction_values \<Rightarrow> nat \<Rightarrow> double list \<Rightarrow> nat \<Rightarrow> error + accum" where
  "class_accum lv ci_group_size average cls =
     (if \<not> cls < length average then Inl OutOfRange
      else if ci_group_size = 0 then Inl DivisionByZero
      else group_loop lv ci_group_size cls (average ! cls)
             [0..<get_num_nodes lv div ci_group_size] accum_init)"

text \<open>The loop over the classes, writing \<open>variance_estimates[cls]\<close>.\<close>

fun class_loop ::
  "strategy \<Rightarrow> double list \<Rightarrow> prediction_values \<Rightarrow> nat \<Rightarrow> nat list \<Rightarrow> double list
     \<Rightarrow> error + double list" where
  "class_loop st average lv ci_group_size [] variance_estimates = Inr variance_estimates"
| "class_loop st average lv ci_group_size (cls # clss) variance_estimates =
     (case class_accum lv ci_group_size average cls of
        Inl e \<Rightarrow> Inl e
      | Inr acc \<Rightarrow>
          class_loop st average lv ci_group_size clss
            (variance_estimates[cls := var_debiased st ci_group_size acc]))"

definition compute_variance ::
  "strategy \<Rightarrow> double list \<Rightarrow> prediction_values \<Rightarrow> nat \<Rightarrow> error + double list" where
  "compute_variance st average lv ci_group_size =
     class_loop st average lv ci_group_size [0..<num_classes st]
       (replicate (num_classes st) (Finite 0))"

section \<open>Leaf aggregation\<close>

text \<open>\<open>vector::resize\<close>: cut to \<open>n\<close> elements, or filled with zeros up to \<open>n\<close>.\<close>

definition resize :: "nat \<Rightarrow> double list \<Rightarrow> double list" where
  "resize n xs = take n xs @ replicate (n - length xs) (Finite 0)"

text \<open>
  The loop over the samples of a leaf. The state is the vector \<open>averages\<close>, the sum
  \<open>weight_sum\<close> and the calls made to the data accessor so far; \<open>averages[sample_class]\<close>
  is not checked.
\<close>

fun sample_loop ::
  "data \<Rightarrow> nat list \<Rightarrow> double list \<times> double \<times> query list
     \<Rightarrow> error + double list \<times> double \<times> query list" where
  "sample_loop d [] s = Inr s"
| "sample_loop d (sample # samples) (averages, weight_sum, calls) =
     (let sample_class = get_outcome d sample
      in if \<not> sample_class < length averages then Inl UncheckedIndex
         else sample_loop d samples
                (averages[sample_class := dadd (averages ! sample_class) (get_weight d sample)],
                 dadd weight_sum (get_weight d sample),
                 calls @ [GetOutcome sample, GetWeight sample, GetWeight sample]))"

text \<open>The last loop of a leaf: every class's sum divided by \<open>weight_sum\<close>.\<close>

fun normalize_loop :: "double \<Rightarrow> nat list \<Rightarrow> double list \<Rightarrow> double list" where
  "normalize_loop weight_sum [] averages = averages"
| "normalize_loop weight_sum (cls # clss) averages =
     normalize_loop weight_sum clss (averages[cls := ddiv (averages ! cls) weight_sum])"

text \<open>
  What the body of the loop over the leaves does to the vector \<open>averages = values[i]\<close>
  of a leaf that has samples: resized, filled by the loop over the samples, and normalised
  unless the total weight is at most \<open>1e-16\<close> in absolute value. In that case the
  \<open>continue\<close> leaves the vector as the loop over the samples filled it.
\<close>

definition leaf_averages ::
  "strategy \<Rightarrow> data \<Rightarrow> nat list \<Rightarrow> double list \<Rightarrow> query list
     \<Rightarrow> error + double list \<times> query list" where
  "leaf_averages st d leaf_node averages0 calls0 =
     (case sample_loop d leaf_node (resize (num_classes st) averages0, Finite 0, calls0) of
        Inl e \<Rightarrow> Inl e
      | Inr (averages, weight_sum, calls) \<Rightarrow>
          if dle (dabs weight_sum) (Finite (1 / 10 ^ 16)) then Inr (averages, calls)
          else Inr (normalize_loop weight_sum [0..<num_classes st] averages, calls))"

text \<open>
  The body of the loop over the leaves, on the vectors \<open>values\<close> and the calls made to
  the accessor: a leaf without samples is skipped.
\<close>

definition leaf_body ::
  "strategy \<Rightarrow> nat list list \<Rightarrow> data \<Rightarrow> nat \<Rightarrow> double list list \<times> query list
     \<Rightarrow> error + double list list \<times> query list" where
  "leaf_body st leaf_samples d i s =
     (let leaf_node = leaf_samples ! i
      in if leaf_node = [] then Inr s
         else
           (case leaf_averages st d leaf_node (fst s ! i) (snd s) of
              Inl e \<Rightarrow> Inl e
            | Inr r \<Rightarrow> Inr ((fst s)[i := fst r], snd r)))"

fun leaf_loop ::
  "strategy \<Rightarrow> nat list list \<Rightarrow> data \<Rightarrow> nat list \<Rightarrow> double list list \<times> query list
     \<Rightarrow> error + double list list \<times> query list" where
  "leaf_loop st leaf_samples d [] s = Inr s"
| "leaf_loop st leaf_samples d (i # is) s =
     (case leaf_body st leaf_samples d i s of
        Inl e \<Rightarrow> Inl e
      | Inr s' \<Rightarrow> leaf_loop st leaf_samples d is s')"

text \<open>
  \<open>precompute_prediction_values\<close>, returning the table together with the calls it made
  to the data accessor.
\<close>

definition precompute_prediction_values ::
  "strategy \<Rightarrow> nat list list \<Rightarrow> data \<Rightarrow> error + prediction_values \<times> query list" where
  "precompute_prediction_values st leaf_samples d =
     (let num_leaves = length leaf_samples
      in case leaf_loop st leaf_samples d [0..<num_leaves] (replicate num_leaves [], []) of
           Inl e \<Rightarrow> Inl e
         | Inr s \<Rightarrow> Inr (PredictionValues (fst s) (num_classes st), snd s))"

section \<open>The facade\<close>

text \<open>
  Claim C7. For every average vector, \<open>predict\<close> returns exactly the vector it was
  given: it is the identity on its input.
\<close>

theorem predict_identity: "predict st average = average"
  by (simp add: predict_def)

text \<open>
  Claim C8. Whatever the sample, the average vector, the table and the data,
  \<open>compute_error\<close> returns a list of exactly one pair, and both components of the pair
  are not-a-number.
\<close>

theorem compute_error_nan:
  "compute_error st sample average leaf_values d = [(NaN, NaN)]"
  by (simp add: compute_error_def)

section \<open>Groups with an empty leaf\<close>

lemma all_less_2: "(\<forall>j<2::nat. P j) \<longleftrightarrow> P 0 \<and> P 1"
  by (auto simp: less_2_cases_iff)

lemma group_leaf_in_range:
  assumes "grp < n div ci" "j < ci"
  shows "grp * ci + j < (n::nat)"
proof -
  have "grp * ci + j < Suc grp * ci" using assms by simp
  also have "\<dots> \<le> (n div ci) * ci" using assms by (simp add: Suc_leI del: mult_Suc)
  also have "\<dots> \<le> n" by simp
  finally show ?thesis .
qed

lemma pv_empty_in_range:
  "node < get_num_nodes lv \<Longrightarrow> pv_empty lv node = Inr (pv_values lv ! node = [])"
  by (simp add: pv_empty_def get_num_nodes_def)

lemma good_group_loop_in_range:
  "\<forall>j\<in>set js. base + j < get_num_nodes lv \<Longrightarrow>
   good_group_loop lv base js g = Inr (g \<and> (\<forall>j\<in>set js. pv_empty lv (base + j) = Inr False))"
  by (induction js arbitrary: g) (auto simp: pv_empty_in_range)

lemma good_group_loop_group:
  assumes "grp < get_num_nodes lv div ci"
  shows "good_group_loop lv (grp * ci) [0..<ci] True =
         Inr (\<forall>j<ci. pv_empty lv (grp * ci + j) = Inr False)"
proof -
  have "\<forall>j\<in>set [0..<ci]. grp * ci + j < get_num_nodes lv"
    using group_leaf_in_range[OF assms] by simp
  from good_group_loop_in_range[OF this] show ?thesis by auto
qed

lemma group_body_skips:
  assumes "grp < get_num_nodes lv div ci" "j < ci" "pv_empty lv (grp * ci + j) = Inr True"
  shows "group_body lv ci cls avg grp acc = Inr acc"
  using assms by (auto simp: group_body_def good_group_loop_group)

lemma group_loop_filter:
  assumes "\<forall>grp\<in>set grps. grp < get_num_nodes lv div ci"
  shows "group_loop lv ci cls avg grps acc =
         group_loop lv ci cls avg
           (filter (\<lambda>grp. \<forall>j<ci. pv_empty lv (grp * ci + j) = Inr False) grps) acc"
  using assms
proof (induction grps arbitrary: acc)
  case Nil
  show ?case by simp
next
  case (Cons grp grps)
  show ?case
  proof (cases "\<forall>j<ci. pv_empty lv (grp * ci + j) = Inr False")
    case True
    with Cons show ?thesis by (simp split: sum.splits)
  next
    case False
    then have "good_group_loop lv (grp * ci) [0..<ci] True = Inr False"
      using Cons.prems by (simp add: good_group_loop_group)
    then have "group_body lv ci cls avg grp acc = Inr acc"
      by (simp add: group_body_def)
    with False Cons show ?thesis by simp
  qed
qed

text \<open>
  Claim C3. In \<open>compute_variance\<close>, for every class, a group in which at least one leaf
  is empty contributes nothing: the body of the loop over the groups returns the three
  accumulators (the count of good groups, \<open>psi_squared\<close> and
  \<open>psi_grouped_squared\<close>) as it found them, and the loop over all the groups computes
  what it computes over the groups whose leaves are all non-empty.
\<close>

theorem empty_leaf_group_contributes_nothing:
  "(\<forall>grp j acc. grp < get_num_nodes lv div ci \<and> j < ci \<and>
        pv_empty lv (grp * ci + j) = Inr True \<longrightarrow>
        group_body lv ci cls average_outcome grp acc = Inr acc) \<and>
   group_loop lv ci cls average_outcome [0..<get_num_nodes lv div ci] acc0 =
     group_loop lv ci cls average_outcome
       (filter (\<lambda>grp. \<forall>j<ci. pv_empty lv (grp * ci + j) = Inr False)
          [0..<get_num_nodes lv div ci]) acc0"
proof (intro conjI allI impI)
  fix grp j acc
  assume "grp < get_num_nodes lv div ci \<and> j < ci \<and> pv_empty lv (grp * ci + j) = Inr True"
  then show "group_body lv ci cls average_outcome grp acc = Inr acc"
    using group_body_skips by blast
next
  show "group_loop lv ci cls average_outcome [0..<get_num_nodes lv div ci] acc0 =
     group_loop lv ci cls average_outcome
       (filter (\<lambda>grp. \<forall>j<ci. pv_empty lv (grp * ci + j) = Inr False)
          [0..<get_num_nodes lv div ci]) acc0"
    by (rule group_loop_filter) simp
qed

text \<open>
  Four leaves in groups of two, the second leaf empty: the first group is skipped, and the
  accumulators are those of the second group alone.
\<close>

theorem empty_leaf_group_contributes_nothing_witness:
  "group_body (PredictionValues [[Finite 1], [], [Finite 2], [Finite 4]] 1) 2 0 (Finite 1) 0
      accum_init = Inr accum_init \<and>
   group_loop (PredictionValues [[Finite 1], [], [Finite 2], [Finite 4]] 1) 2 0 (Finite 1)
      [0..<get_num_nodes (PredictionValues [[Finite 1], [], [Finite 2], [Finite 4]] 1) div 2]
      accum_init =
   Inr \<lparr>num_good_groups = Finite 1, psi_squared = Finite 10, psi_grouped_squared = Finite 4\<rparr>"
proof -
  let ?lv = "PredictionValues [[Finite 1], [], [Finite 2], [Finite 4]] 1"
  note inst = empty_leaf_group_contributes_nothing[of ?lv 2 0 "Finite 1" accum_init]
  have n: "get_num_nodes ?lv div 2 = 2"
    by (simp add: get_num_nodes_def PredictionValues_def)
  have e: "pv_empty ?lv (0 * 2 + 1) = Inr True"
    by (simp add: pv_empty_def PredictionValues_def)
  have "(0::nat) < get_num_nodes ?lv div 2 \<and> (1::nat) < 2 \<and> pv_empty ?lv (0 * 2 + 1) = Inr True"
    using n e by simp
  with inst have a: "group_body ?lv 2 0 (Finite 1) 0 accum_init = Inr accum_init"
    by blast
  have f: "filter (\<lambda>grp. \<forall>j<2. pv_empty ?lv (grp * 2 + j) = Inr False) [0..<2] = [1]"
    by (simp add: all_less_2 pv_empty_def PredictionValues_def upt_conv_Cons)
  have "group_loop ?lv 2 0 (Finite 1) [1] accum_init =
        Inr \<lparr>num_good_groups = Finite 1, psi_squared = Finite 10, psi_grouped_squared = Finite 4\<rparr>"
    by (simp add: group_body_def pv_empty_def pv_get_def PredictionValues_def accum_init_def
          dsub_def of_size_def upt_conv_Cons)
  with inst n f a show ?thesis by simp
qed

subsection \<open>The count of good groups\<close>

lemma group_body_good_count:
  assumes "grp < get_num_nodes lv div ci" "\<forall>j<ci. pv_empty lv (grp * ci + j) = Inr False"
    and "group_body lv ci cls avg grp acc = Inr acc'"
  shows "num_good_groups acc' = dadd (num_good_groups acc) (Finite 1)"
  using assms
  by (auto simp: group_body_def good_group_loop_group Let_def split: sum.splits)

lemma group_loop_good_count:
  assumes "\<forall>grp\<in>set grps. grp < get_num_nodes lv div ci \<and>
             (\<forall>j<ci. pv_empty lv (grp * ci + j) = Inr False)"
    and "group_loop lv ci cls avg grps acc = Inr acc'"
    and "num_good_groups acc = Finite r"
  shows "num_good_groups acc' = Finite (r + real (length grps))"
  using assms
proof (induction grps arbitrary: acc r)
  case Nil
  then show ?case by simp
next
  case (Cons grp grps)
  from Cons.prems(2) obtain acc1 where
    b: "group_body lv ci cls avg grp acc = Inr acc1" and
    l: "group_loop lv ci cls avg grps acc1 = Inr acc'"
    by (auto split: sum.splits)
  from Cons.prems(1) b have "num_good_groups acc1 = dadd (num_good_groups acc) (Finite 1)"
    by (intro group_body_good_count) auto
  with Cons.prems(3) have "num_good_groups acc1 = Finite (r + 1)" by simp
  from Cons.IH[OF _ l this] Cons.prems(1) show ?case by (simp add: add.assoc)
qed

lemma class_accum_filter:
  "class_accum lv ci average cls =
     (if \<not> cls < length average then Inl OutOfRange
      else if ci = 0 then Inl DivisionByZero
      else group_loop lv ci cls (average ! cls)
             (filter (\<lambda>grp. \<forall>j<ci. pv_empty lv (grp * ci + j) = Inr False)
                [0..<get_num_nodes lv div ci]) accum_init)"
  unfolding class_accum_def
  using group_loop_filter[of "[0..<get_num_nodes lv div ci]" lv ci cls "average ! cls" accum_init]
  by simp

lemma class_accum_good_count:
  assumes "class_accum lv ci average cls = Inr acc"
  shows "num_good_groups acc =
         of_size (length (filter (\<lambda>grp. \<forall>j<ci. pv_empty lv (grp * ci + j) = Inr False)
                    [0..<get_num_nodes lv div ci]))"
proof -
  let ?good = "filter (\<lambda>grp. \<forall>j<ci. pv_empty lv (grp * ci + j) = Inr False)
                 [0..<get_num_nodes lv div ci]"
  from assms have l: "group_loop lv ci cls (average ! cls) ?good accum_init = Inr acc"
    by (simp add: class_accum_filter split: if_splits)
  have "num_good_groups acc = Finite (0 + real (length ?good))"
    by (rule group_loop_good_count[OF _ l]) (auto simp: accum_init_def)
  then show ?thesis by (simp add: of_size_def)
qed



subsection \<open>The loop over the classes\<close>

lemma class_loop_length:
  "class_loop st average lv ci clss ve = Inr v \<Longrightarrow> length v = length ve"
  by (induction clss arbitrary: ve) (auto split: sum.splits)

lemma class_loop_entries:
  assumes "class_loop st average lv ci clss ve = Inr v" "distinct clss"
    "\<forall>cls\<in>set clss. cls < length ve"
  shows "(\<forall>cls\<in>set clss. \<exists>acc. class_accum lv ci average cls = Inr acc \<and>
            v ! cls = var_debiased st ci acc) \<and>
         (\<forall>i. i \<notin> set clss \<longrightarrow> v ! i = ve ! i)"
  using assms
proof (induction clss arbitrary: ve)
  case Nil
  then show ?case by simp
next
  case (Cons cls clss)
  from Cons.prems(1) obtain acc where
    a: "class_accum lv ci average cls = Inr acc" and
    l: "class_loop st average lv ci clss (ve[cls := var_debiased st ci acc]) = Inr v"
    by (auto split: sum.splits)
  from Cons.prems have d: "distinct clss" "cls \<notin> set clss"
    and r: "\<forall>c\<in>set clss. c < length (ve[cls := var_debiased st ci acc])"
    and c: "cls < length ve"
    by auto
  note ih = Cons.IH[OF l d(1) r]
  from ih d(2) c have "v ! cls = var_debiased st ci acc" by simp
  with a ih show ?case by (auto simp: nth_list_update)
qed

lemma class_loop_returns:
  assumes "\<forall>cls\<in>set clss. \<exists>acc. class_accum lv ci average cls = Inr acc"
  shows "\<exists>v. class_loop st average lv ci clss ve = Inr v"
  using assms by (induction clss arbitrary: ve) auto

lemma compute_variance_entries:
  assumes "compute_variance st average lv ci = Inr v"
  shows "length v = num_classes st"
    and "cls < num_classes st \<Longrightarrow>
         \<exists>acc. class_accum lv ci average cls = Inr acc \<and> v ! cls = var_debiased st ci acc"
proof -
  from assms have l: "class_loop st average lv ci [0..<num_classes st]
      (replicate (num_classes st) (Finite 0)) = Inr v"
    by (simp add: compute_variance_def)
  from class_loop_length[OF l] show "length v = num_classes st" by simp
  have "(\<forall>cls\<in>set [0..<num_classes st]. \<exists>acc. class_accum lv ci average cls = Inr acc \<and>
            v ! cls = var_debiased st ci acc) \<and>
        (\<forall>i. i \<notin> set [0..<num_classes st] \<longrightarrow> v ! i = replicate (num_classes st) (Finite 0) ! i)"
    by (rule class_loop_entries[OF l]) auto
  then show "cls < num_classes st \<Longrightarrow>
         \<exists>acc. class_accum lv ci average cls = Inr acc \<and> v ! cls = var_debiased st ci acc"
    by simp
qed

lemma compute_variance_returns:
  assumes "\<forall>cls<num_classes st. \<exists>acc. class_accum lv ci average cls = Inr acc"
  shows "\<exists>v. compute_variance st average lv ci = Inr v"
  unfolding compute_variance_def using assms by (intro class_loop_returns) simp

subsection \<open>Intermediate values without a good group\<close>


subsection \<open>When the loops return\<close>

lemma pv_get_in_range:
  "node < get_num_nodes lv \<Longrightarrow> cls < length (pv_values lv ! node) \<Longrightarrow>
   pv_get lv node cls = Inr (pv_values lv ! node ! cls)"
  by (simp add: pv_get_def get_num_nodes_def)

lemma psi_loop_returns:
  assumes "\<forall>j\<in>set js. base + j < get_num_nodes lv \<and> cls < length (pv_values lv ! (base + j))"
  shows "\<exists>s'. psi_loop lv cls avg base js s = Inr s'"
  using assms by (induction js arbitrary: s) (auto simp: pv_get_in_range Let_def)

lemma group_body_returns:
  assumes "grp < get_num_nodes lv div ci"
    and "\<forall>i<get_num_nodes lv. pv_values lv ! i = [] \<or> cls < length (pv_values lv ! i)"
  shows "\<exists>acc'. group_body lv ci cls avg grp acc = Inr acc'"
proof (cases "\<forall>j<ci. pv_empty lv (grp * ci + j) = Inr False")
  case True
  have "\<forall>j\<in>set [0..<ci]. grp * ci + j < get_num_nodes lv \<and>
          cls < length (pv_values lv ! (grp * ci + j))"
  proof
    fix j assume "j \<in> set [0..<ci]"
    then have j: "j < ci" by simp
    with assms(1) have r: "grp * ci + j < get_num_nodes lv" by (rule group_leaf_in_range)
    from True j have "pv_empty lv (grp * ci + j) = Inr False" by simp
    with r have "pv_values lv ! (grp * ci + j) \<noteq> []" by (simp add: pv_empty_in_range)
    with assms(2) r show "grp * ci + j < get_num_nodes lv \<and>
          cls < length (pv_values lv ! (grp * ci + j))" by blast
  qed
  from psi_loop_returns[OF this] obtain s' where
    "psi_loop lv cls avg (grp * ci) [0..<ci] (psi_squared acc, Finite 0) = Inr s'" by blast
  with True assms(1) show ?thesis
    by (simp add: group_body_def good_group_loop_group Let_def)
next
  case False
  with assms(1) show ?thesis by (simp add: group_body_def good_group_loop_group)
qed

lemma group_loop_returns:
  assumes "\<forall>grp\<in>set grps. grp < get_num_nodes lv div ci"
    and "\<forall>i<get_num_nodes lv. pv_values lv ! i = [] \<or> cls < length (pv_values lv ! i)"
  shows "\<exists>acc'. group_loop lv ci cls avg grps acc = Inr acc'"
  using assms(1)
proof (induction grps arbitrary: acc)
  case Nil
  show ?case by simp
next
  case (Cons grp grps)
  then have "grp < get_num_nodes lv div ci" by simp
  from group_body_returns[OF this assms(2)] obtain acc1 where
    "group_body lv ci cls avg grp acc = Inr acc1" by blast
  with Cons show ?case by simp
qed

lemma class_accum_returns:
  assumes "cls < length average" "0 < ci"
    and "\<forall>i<get_num_nodes lv. pv_values lv ! i = [] \<or> cls < length (pv_values lv ! i)"
  shows "\<exists>acc. class_accum lv ci average cls = Inr acc"
  using assms(1,2) group_loop_returns[OF _ assms(3), of "[0..<get_num_nodes lv div ci]" ci]
  by (simp add: class_accum_def)

text \<open>
  \<open>compute_variance\<close> returns a vector as soon as the group size is positive, the
  average has an entry for every class and every non-empty leaf a value for every class.
\<close>

lemma compute_variance_total:
  assumes "0 < ci" "num_classes st \<le> length average"
    and "\<forall>i<get_num_nodes lv. pv_values lv ! i = [] \<or> num_classes st \<le> length (pv_values lv ! i)"
  shows "\<exists>v. compute_variance st average lv ci = Inr v"
proof (rule compute_variance_returns, intro allI impI)
  fix cls assume c: "cls < num_classes st"
  with assms(3) have "\<forall>i<get_num_nodes lv. pv_values lv ! i = [] \<or> cls < length (pv_values lv ! i)"
    by (metis less_le_trans)
  with c assms(1,2) show "\<exists>acc. class_accum lv ci average cls = Inr acc"
    by (intro class_accum_returns) auto
qed

section \<open>No good group\<close>




section \<open>The variance vector\<close>

text \<open>
  Claim C4. When \<open>compute_variance\<close> returns, the vector has exactly \<open>num_classes\<close>
  entries. The count of good groups of a class is a natural number \<open>k\<close>, and if the
  debiaser returns a non-negative value whenever that count is positive, the entry of every
  class with \<open>k > 0\<close> is non-negative.
\<close>

theorem compute_variance_length_nonneg:
  assumes "\<And>a b k. 0 < k \<Longrightarrow> dle (Finite 0) (debias st a b (of_size k))"
    and "compute_variance st average lv ci = Inr v"
  shows "length v = num_classes st \<and>
         (\<forall>cls<num_classes st. \<exists>acc k.
            class_accum lv ci average cls = Inr acc \<and>
            num_good_groups acc = of_size k \<and>
            v ! cls = debias st (var_between acc) (group_noise ci acc) (num_good_groups acc) \<and>
            (0 < k \<longrightarrow> dle (Finite 0) (v ! cls)))"
proof (intro conjI allI impI)
  show "length v = num_classes st" by (rule compute_variance_entries(1)[OF assms(2)])
next
  fix cls assume "cls < num_classes st"
  from compute_variance_entries(2)[OF assms(2) this] obtain acc where
    a: "class_accum lv ci average cls = Inr acc" and e: "v ! cls = var_debiased st ci acc"
    by blast
  let ?k = "length (filter (\<lambda>grp. \<forall>j<ci. pv_empty lv (grp * ci + j) = Inr False)
                      [0..<get_num_nodes lv div ci])"
  have k: "num_good_groups acc = of_size ?k" by (rule class_accum_good_count[OF a])
  have "dle (Finite 0) (v ! cls)" if "0 < ?k"
    using assms(1)[OF that] e k by (simp add: var_debiased_def)
  with a e k show "\<exists>acc k.
            class_accum lv ci average cls = Inr acc \<and>
            num_good_groups acc = of_size k \<and>
            v ! cls = debias st (var_between acc) (group_noise ci acc) (num_good_groups acc) \<and>
            (0 < k \<longrightarrow> dle (Finite 0) (v ! cls))"
    unfolding var_debiased_def by blast
qed

text \<open>
  Two classes and four leaves in two good groups, with a debiaser that returns
  \<open>var_between\<close> when it is at least 0 and 0 otherwise.
\<close>

theorem compute_variance_length_nonneg_witness:
  "compute_variance
     \<lparr>num_classes = 2, debias = (\<lambda>a b n. if dle (Finite 0) a then a else Finite 0)\<rparr>
     [Finite 1, Finite 2]
     (PredictionValues [[Finite 1, Finite 2], [Finite 3, Finite 2],
                        [Finite 2, Finite 2], [Finite 4, Finite 2]] 2) 2
   = Inr [Finite (5 / 2), Finite 0] \<and>
   length [Finite (5 / 2), Finite 0] = (2::nat) \<and>
   dle (Finite 0) ([Finite (5 / 2), Finite 0] ! 0) \<and>
   dle (Finite 0) ([Finite (5 / 2), Finite 0] ! 1)"
proof -
  let ?st = "\<lparr>num_classes = 2, debias = (\<lambda>a b n. if dle (Finite 0) a then a else Finite 0)\<rparr>"
  let ?lv = "PredictionValues [[Finite 1, Finite 2], [Finite 3, Finite 2],
                        [Finite 2, Finite 2], [Finite 4, Finite 2]] 2"
  have contract: "dle (Finite 0) (debias ?st a b (of_size k))" for a b k
    by (cases a) auto
  have a0: "class_accum ?lv 2 [Finite 1, Finite 2] 0 =
      Inr \<lparr>num_good_groups = Finite 2, psi_squared = Finite 14, psi_grouped_squared = Finite 5\<rparr>"
    by (simp add: class_accum_def get_num_nodes_def PredictionValues_def group_body_def
          pv_empty_def pv_get_def accum_init_def dsub_def of_size_def upt_conv_Cons Let_def)
  have a1: "class_accum ?lv 2 [Finite 1, Finite 2] (Suc 0) =
      Inr \<lparr>num_good_groups = Finite 2, psi_squared = Finite 0, psi_grouped_squared = Finite 0\<rparr>"
    by (simp add: class_accum_def get_num_nodes_def PredictionValues_def group_body_def
          pv_empty_def pv_get_def accum_init_def dsub_def of_size_def upt_conv_Cons Let_def)
  have rep: "replicate 2 (Finite 0) = [Finite 0, Finite 0]"
    by (simp add: numeral_2_eq_2)
  have r: "compute_variance ?st [Finite 1, Finite 2] ?lv 2 = Inr [Finite (5 / 2), Finite 0]"
    by (simp add: compute_variance_def a0 a1 var_debiased_def var_between_def upt_conv_Cons
          rep)
  note inst = compute_variance_length_nonneg[OF contract r]
  from inst have len: "length [Finite (5 / 2), Finite 0 :: double] = num_classes ?st"
    by blast
  have pos: "dle (Finite 0) ([Finite (5 / 2), Finite 0] ! cls)" if "cls < 2" for cls
  proof -
    from inst that obtain acc k where
      "class_accum ?lv 2 [Finite 1, Finite 2] cls = Inr acc"
      "num_good_groups acc = of_size k"
      "0 < k \<longrightarrow> dle (Finite 0) ([Finite (5 / 2), Finite 0] ! cls)"
      by force
    moreover from that have "cls = 0 \<or> cls = Suc 0" by auto
    ultimately show ?thesis using a0 a1 by (auto simp: of_size_def)
  qed
  from pos[of 0] pos[of 1] len r show ?thesis by simp
qed

section \<open>The trailing partial group\<close>

lemma group_leaf_below:
  assumes "grp < G" "j < ci"
  shows "grp * ci + j < G * (ci::nat)"
proof -
  have "grp * ci + j < Suc grp * ci" using assms by simp
  also have "\<dots> \<le> G * ci" using assms by (intro mult_le_mono1) simp
  finally show ?thesis .
qed

lemma pv_empty_agree:
  assumes "\<forall>i<m. pv_values lv1 ! i = pv_values lv2 ! i"
    "m \<le> get_num_nodes lv1" "m \<le> get_num_nodes lv2" "i < m"
  shows "pv_empty lv1 i = pv_empty lv2 i"
  using assms by (simp add: pv_empty_def get_num_nodes_def)

lemma pv_get_agree:
  assumes "\<forall>i<m. pv_values lv1 ! i = pv_values lv2 ! i"
    "m \<le> get_num_nodes lv1" "m \<le> get_num_nodes lv2" "i < m"
  shows "pv_get lv1 i cls = pv_get lv2 i cls"
  using assms by (simp add: pv_get_def get_num_nodes_def)

lemma good_group_loop_agree:
  assumes "\<forall>i<m. pv_values lv1 ! i = pv_values lv2 ! i"
    "m \<le> get_num_nodes lv1" "m \<le> get_num_nodes lv2"
  shows "\<forall>j\<in>set js. base + j < m \<Longrightarrow>
         good_group_loop lv1 base js g = good_group_loop lv2 base js g"
  by (induction js arbitrary: g) (simp_all add: pv_empty_agree[OF assms] cong: sum.case_cong)

lemma psi_loop_agree:
  assumes "\<forall>i<m. pv_values lv1 ! i = pv_values lv2 ! i"
    "m \<le> get_num_nodes lv1" "m \<le> get_num_nodes lv2"
  shows "\<forall>j\<in>set js. base + j < m \<Longrightarrow>
         psi_loop lv1 cls avg base js s = psi_loop lv2 cls avg base js s"
  by (induction js arbitrary: s) (simp_all add: pv_get_agree[OF assms] Let_def cong: sum.case_cong)

lemma group_body_agree:
  assumes "\<forall>i<G * ci. pv_values lv1 ! i = pv_values lv2 ! i"
    "G * ci \<le> get_num_nodes lv1" "G * ci \<le> get_num_nodes lv2" "grp < G"
  shows "group_body lv1 ci cls avg grp acc = group_body lv2 ci cls avg grp acc"
proof -
  have r: "\<forall>j\<in>set [0..<ci]. grp * ci + j < G * ci"
    using group_leaf_below[OF assms(4)] by simp
  show ?thesis
    unfolding group_body_def
    by (simp only: good_group_loop_agree[OF assms(1-3) r] psi_loop_agree[OF assms(1-3) r])
qed

lemma group_loop_agree:
  assumes "\<forall>i<G * ci. pv_values lv1 ! i = pv_values lv2 ! i"
    "G * ci \<le> get_num_nodes lv1" "G * ci \<le> get_num_nodes lv2"
  shows "\<forall>grp\<in>set grps. grp < G \<Longrightarrow>
         group_loop lv1 ci cls avg grps acc = group_loop lv2 ci cls avg grps acc"
  by (induction grps arbitrary: acc) (simp_all add: group_body_agree[OF assms] cong: sum.case_cong)

lemma class_accum_agree:
  assumes "get_num_nodes lv1 div ci = get_num_nodes lv2 div ci"
    and "\<forall>i<get_num_nodes lv1 div ci * ci. pv_values lv1 ! i = pv_values lv2 ! i"
  shows "class_accum lv1 ci average cls = class_accum lv2 ci average cls"
proof -
  let ?G = "get_num_nodes lv1 div ci"
  have "?G * ci \<le> get_num_nodes lv1" by simp
  moreover have "?G * ci \<le> get_num_nodes lv2" by (simp add: assms(1))
  ultimately have "group_loop lv1 ci cls (average ! cls) [0..<?G] accum_init =
        group_loop lv2 ci cls (average ! cls) [0..<?G] accum_init"
    using assms(2) by (intro group_loop_agree[where G = ?G]) auto
  then show ?thesis by (simp add: class_accum_def assms(1)[symmetric])
qed

lemma class_loop_agree:
  assumes "\<And>cls. class_accum lv1 ci average cls = class_accum lv2 ci average cls"
  shows "class_loop st average lv1 ci clss ve = class_loop st average lv2 ci clss ve"
  by (induction clss arbitrary: ve) (simp_all add: assms cong: sum.case_cong)

text \<open>
  Claim C9. \<open>compute_variance\<close> reads only the first
  \<open>get_num_nodes() / ci_group_size\<close> complete groups: two tables with the same number of
  complete groups (in particular two tables of the same size) that agree on every leaf
  below \<open>(get_num_nodes() / ci_group_size) * ci_group_size\<close> give the same result, be
  it a vector or an error, so the leaves of a trailing partial group never matter.
\<close>

theorem compute_variance_ignores_partial_group:
  assumes "get_num_nodes lv1 div ci = get_num_nodes lv2 div ci"
    and "\<forall>i<get_num_nodes lv1 div ci * ci. pv_values lv1 ! i = pv_values lv2 ! i"
  shows "compute_variance st average lv1 ci = compute_variance st average lv2 ci"
  unfolding compute_variance_def
  by (rule class_loop_agree) (rule class_accum_agree[OF assms])

text \<open>
  Three leaves in groups of two: the third leaf, alone in its group, holds a value in one
  table and is empty in the other, and the result is the same.
\<close>

theorem compute_variance_ignores_partial_group_witness:
  "compute_variance \<lparr>num_classes = 1, debias = (\<lambda>a b n. a)\<rparr> [Finite 1]
     (PredictionValues [[Finite 1], [Finite 3], [Finite 100]] 1) 2 =
   compute_variance \<lparr>num_classes = 1, debias = (\<lambda>a b n. a)\<rparr> [Finite 1]
     (PredictionValues [[Finite 1], [Finite 3], []] 1) 2 \<and>
   compute_variance \<lparr>num_classes = 1, debias = (\<lambda>a b n. a)\<rparr> [Finite 1]
     (PredictionValues [[Finite 1], [Finite 3], []] 1) 2 = Inr [Finite 1]"
proof -
  let ?st = "\<lparr>num_classes = 1, debias = (\<lambda>a b n. a)\<rparr>"
  let ?lv1 = "PredictionValues [[Finite 1], [Finite 3], [Finite 100]] 1"
  let ?lv2 = "PredictionValues [[Finite 1], [Finite 3], []] 1"
  have n: "get_num_nodes ?lv1 div 2 = 1" "get_num_nodes ?lv2 div 2 = 1"
    by (simp_all add: get_num_nodes_def PredictionValues_def)
  have g: "get_num_nodes ?lv1 div 2 = get_num_nodes ?lv2 div 2"
    by (simp only: n)
  have a: "\<forall>i<get_num_nodes ?lv1 div 2 * 2. pv_values ?lv1 ! i = pv_values ?lv2 ! i"
    unfolding n by (simp add: all_less_2 PredictionValues_def)
  have r: "compute_variance ?st [Finite 1] ?lv2 2 = Inr [Finite 1]"
    by (simp add: compute_variance_def class_accum_def get_num_nodes_def group_body_def
          PredictionValues_def pv_empty_def pv_get_def accum_init_def dsub_def of_size_def
          var_debiased_def var_between_def upt_conv_Cons Let_def)
  from compute_variance_ignores_partial_group[OF g a, of ?st "[Finite 1]"] r
  show ?thesis by simp
qed

section \<open>The loop over the leaves\<close>

lemma sample_loop_result:
  "sample_loop d samples (a, w, c) = Inr (a', w', c') \<Longrightarrow>
   length a' = length a \<and>
   c' = c @ concat (map (\<lambda>s. [GetOutcome s, GetWeight s, GetWeight s]) samples)"
proof (induction samples arbitrary: a w c)
  case Nil
  then show ?case by simp
next
  case (Cons s samples)
  from Cons.prems have
    l: "sample_loop d samples
          (a[get_outcome d s := dadd (a ! get_outcome d s) (get_weight d s)],
           dadd w (get_weight d s), c @ [GetOutcome s, GetWeight s, GetWeight s]) =
        Inr (a', w', c')"
    by (simp add: Let_def split: if_splits)
  from Cons.IH[OF l] show ?case by simp
qed

lemma normalize_loop_length: "length (normalize_loop w clss a) = length a"
  by (induction clss arbitrary: a) auto

lemma leaf_averages_result:
  assumes "leaf_averages st d leaf_node a0 c0 = Inr (a, c)"
  shows "length a = num_classes st \<and>
         c = c0 @ concat (map (\<lambda>s. [GetOutcome s, GetWeight s, GetWeight s]) leaf_node)"
proof -
  from assms obtain a1 w1 where
    s: "sample_loop d leaf_node (resize (num_classes st) a0, Finite 0, c0) = Inr (a1, w1, c)"
    and a: "a = a1 \<or> a = normalize_loop w1 [0..<num_classes st] a1"
    by (auto simp: leaf_averages_def split: sum.splits if_splits)
  from sample_loop_result[OF s] have "length a1 = num_classes st"
    and "c = c0 @ concat (map (\<lambda>s. [GetOutcome s, GetWeight s, GetWeight s]) leaf_node)"
    by (simp_all add: resize_def)
  with a show ?thesis by (auto simp: normalize_loop_length)
qed

lemma leaf_body_empty_leaf:
  "leaf_samples ! i = [] \<Longrightarrow> leaf_body st leaf_samples d i s = Inr s"
  by (simp add: leaf_body_def)

lemma leaf_body_result:
  assumes "leaf_body st ls d i (vals, c) = Inr (vals', c')" "i < length vals"
  shows "length vals' = length vals \<and> (\<forall>k. k \<noteq> i \<longrightarrow> vals' ! k = vals ! k) \<and>
         c' = c @ concat (map (\<lambda>s. [GetOutcome s, GetWeight s, GetWeight s]) (ls ! i)) \<and>
         (ls ! i = [] \<longrightarrow> vals' ! i = vals ! i) \<and>
         (ls ! i \<noteq> [] \<longrightarrow> leaf_averages st d (ls ! i) (vals ! i) c = Inr (vals' ! i, c'))"
proof (cases "ls ! i = []")
  case True
  with assms show ?thesis by (simp add: leaf_body_def)
next
  case False
  with assms(1) obtain a where
    l: "leaf_averages st d (ls ! i) (vals ! i) c = Inr (a, c')" and v: "vals' = vals[i := a]"
    by (auto simp: leaf_body_def split: sum.splits)
  from leaf_averages_result[OF l] l v assms(2) False show ?thesis by simp
qed

lemma leaf_loop_result:
  assumes "leaf_loop st ls d idxs (vals, c) = Inr (vals', c')" "distinct idxs"
    "\<forall>i\<in>set idxs. i < length vals"
  shows "length vals' = length vals \<and> (\<forall>k. k \<notin> set idxs \<longrightarrow> vals' ! k = vals ! k) \<and>
         c' = c @ concat (map (\<lambda>i. concat (map (\<lambda>s. [GetOutcome s, GetWeight s, GetWeight s])
                                        (ls ! i))) idxs) \<and>
         (\<forall>i\<in>set idxs.
            (ls ! i = [] \<longrightarrow> vals' ! i = vals ! i) \<and>
            (ls ! i \<noteq> [] \<longrightarrow>
               (\<exists>c0 c1. leaf_averages st d (ls ! i) (vals ! i) c0 = Inr (vals' ! i, c1))))"
  using assms
proof (induction idxs arbitrary: vals c)
  case Nil
  then show ?case by simp
next
  case (Cons i idxs)
  from Cons.prems(1) obtain vals1 c1 where
    b: "leaf_body st ls d i (vals, c) = Inr (vals1, c1)" and
    l: "leaf_loop st ls d idxs (vals1, c1) = Inr (vals', c')"
    by (auto split: sum.splits)
  from Cons.prems have i: "i < length vals" "i \<notin> set idxs" and d: "distinct idxs" by auto
  note body = leaf_body_result[OF b i(1)]
  from Cons.prems(3) body have r: "\<forall>k\<in>set idxs. k < length vals1" by simp
  note ih = Cons.IH[OF l d r]
  from ih i(2) have same: "vals' ! i = vals1 ! i" by blast
  have len: "length vals' = length vals" using ih body by simp
  have out: "\<forall>k. k \<notin> set (i # idxs) \<longrightarrow> vals' ! k = vals ! k" using ih body by simp
  have calls: "c' = c @ concat (map (\<lambda>i. concat (map (\<lambda>s. [GetOutcome s, GetWeight s, GetWeight s])
                                        (ls ! i))) (i # idxs))"
    using ih body by simp
  have "(ls ! k = [] \<longrightarrow> vals' ! k = vals ! k) \<and>
        (ls ! k \<noteq> [] \<longrightarrow>
           (\<exists>c0 c1. leaf_averages st d (ls ! k) (vals ! k) c0 = Inr (vals' ! k, c1)))"
    if "k \<in> set (i # idxs)" for k
  proof (cases "k = i")
    case True
    with body same show ?thesis by auto
  next
    case False
    with that have k: "k \<in> set idxs" by simp
    from False body have "vals1 ! k = vals ! k" by simp
    moreover from ih k have "(ls ! k = [] \<longrightarrow> vals' ! k = vals1 ! k) \<and>
        (ls ! k \<noteq> [] \<longrightarrow>
           (\<exists>c0 c1. leaf_averages st d (ls ! k) (vals1 ! k) c0 = Inr (vals' ! k, c1)))"
      by blast
    ultimately show ?thesis by simp
  qed
  with len out calls show ?case by blast
qed

lemma precompute_result:
  assumes "precompute_prediction_values st leaf_samples d = Inr (pv, calls)"
  shows "pv_num_types pv = num_classes st" "length (pv_values pv) = length leaf_samples"
    "calls = concat (map (\<lambda>leaf. concat (map (\<lambda>s. [GetOutcome s, GetWeight s, GetWeight s])
                                        leaf)) leaf_samples)"
    "i < length leaf_samples \<Longrightarrow> leaf_samples ! i = [] \<Longrightarrow> pv_values pv ! i = []"
    "i < length leaf_samples \<Longrightarrow> leaf_samples ! i \<noteq> [] \<Longrightarrow>
       \<exists>c0 c1. leaf_averages st d (leaf_samples ! i) [] c0 = Inr (pv_values pv ! i, c1)"
proof -
  let ?n = "length leaf_samples"
  from assms obtain vals where
    l: "leaf_loop st leaf_samples d [0..<?n] (replicate ?n [], []) = Inr (vals, calls)"
    and pv: "pv = PredictionValues vals (num_classes st)"
    by (auto simp: precompute_prediction_values_def Let_def split: sum.splits)
  have "length vals = length (replicate ?n ([]::double list)) \<and>
        (\<forall>k. k \<notin> set [0..<?n] \<longrightarrow> vals ! k = replicate ?n [] ! k) \<and>
         calls = [] @ concat (map (\<lambda>i. concat (map (\<lambda>s. [GetOutcome s, GetWeight s, GetWeight s])
                                        (leaf_samples ! i))) [0..<?n]) \<and>
         (\<forall>i\<in>set [0..<?n].
            (leaf_samples ! i = [] \<longrightarrow> vals ! i = replicate ?n [] ! i) \<and>
            (leaf_samples ! i \<noteq> [] \<longrightarrow>
               (\<exists>c0 c1. leaf_averages st d (leaf_samples ! i) (replicate ?n [] ! i) c0 =
                          Inr (vals ! i, c1))))"
    by (rule leaf_loop_result[OF l]) simp_all
  then have len: "length vals = ?n"
    and c: "calls = concat (map (\<lambda>i. concat (map (\<lambda>s. [GetOutcome s, GetWeight s, GetWeight s])
                                        (leaf_samples ! i))) [0..<?n])"
    and e: "\<forall>i<?n. (leaf_samples ! i = [] \<longrightarrow> vals ! i = []) \<and>
            (leaf_samples ! i \<noteq> [] \<longrightarrow>
               (\<exists>c0 c1. leaf_averages st d (leaf_samples ! i) [] c0 = Inr (vals ! i, c1)))"
    by simp_all
  have "map (\<lambda>i. concat (map (\<lambda>s. [GetOutcome s, GetWeight s, GetWeight s])
                                        (leaf_samples ! i))) [0..<?n] =
        map (\<lambda>leaf. concat (map (\<lambda>s. [GetOutcome s, GetWeight s, GetWeight s]) leaf))
          leaf_samples"
    by (rule nth_equalityI) simp_all
  with c show "calls = concat (map (\<lambda>leaf. concat (map (\<lambda>s. [GetOutcome s, GetWeight s, GetWeight s])
                                        leaf)) leaf_samples)" by simp
  from pv show "pv_num_types pv = num_classes st" by (simp add: PredictionValues_def)
  from pv len show "length (pv_values pv) = length leaf_samples"
    by (simp add: PredictionValues_def)
  from pv e show "i < length leaf_samples \<Longrightarrow> leaf_samples ! i = [] \<Longrightarrow> pv_values pv ! i = []"
    by (simp add: PredictionValues_def)
  from pv e show "i < length leaf_samples \<Longrightarrow> leaf_samples ! i \<noteq> [] \<Longrightarrow>
       \<exists>c0 c1. leaf_averages st d (leaf_samples ! i) [] c0 = Inr (pv_values pv ! i, c1)"
    by (simp add: PredictionValues_def)
qed

subsection \<open>When the table is returned\<close>

lemma sample_loop_returns:
  "\<forall>s\<in>set samples. get_outcome d s < length (fst r) \<Longrightarrow> \<exists>r'. sample_loop d samples r = Inr r'"
proof (induction samples arbitrary: r)
  case Nil
  show ?case by (cases r) simp
next
  case (Cons s samples)
  obtain a w c where r: "r = (a, w, c)" using prod_cases3 by blast
  with Cons.prems have "\<forall>x\<in>set samples. get_outcome d x <
      length (fst (a[get_outcome d s := dadd (a ! get_outcome d s) (get_weight d s)],
                   dadd w (get_weight d s), c @ [GetOutcome s, GetWeight s, GetWeight s]))"
    by simp
  from Cons.IH[OF this] Cons.prems r show ?case by (simp add: Let_def)
qed

lemma length_resize: "length (resize n xs) = n"
  by (simp add: resize_def)

lemma leaf_averages_returns:
  assumes "\<forall>s\<in>set leaf_node. get_outcome d s < num_classes st"
  shows "\<exists>r. leaf_averages st d leaf_node a0 c0 = Inr r"
proof -
  from assms have "\<forall>s\<in>set leaf_node. get_outcome d s <
      length (fst (resize (num_classes st) a0, Finite 0, c0))"
    by (simp add: length_resize)
  from sample_loop_returns[OF this] obtain r' where
    "sample_loop d leaf_node (resize (num_classes st) a0, Finite 0, c0) = Inr r'" by blast
  then show ?thesis by (cases r') (simp add: leaf_averages_def)
qed

lemma leaf_loop_returns:
  assumes "\<forall>leaf_node\<in>set leaf_samples. \<forall>s\<in>set leaf_node. get_outcome d s < num_classes st"
  shows "\<forall>i\<in>set idxs. i < length leaf_samples \<Longrightarrow>
         \<exists>r. leaf_loop st leaf_samples d idxs s = Inr r"
proof (induction idxs arbitrary: s)
  case Nil
  show ?case by simp
next
  case (Cons i idxs)
  then have "leaf_samples ! i \<in> set leaf_samples" by simp
  with assms have "\<forall>s\<in>set (leaf_samples ! i). get_outcome d s < num_classes st" by blast
  from leaf_averages_returns[OF this] obtain r where
    "leaf_averages st d (leaf_samples ! i) (fst s ! i) (snd s) = Inr r" by blast
  then have "\<exists>s'. leaf_body st leaf_samples d i s = Inr s'"
    by (simp add: leaf_body_def Let_def)
  with Cons show ?case by auto
qed

text \<open>
  \<open>precompute_prediction_values\<close> returns a table as soon as every class label is below
  \<open>num_classes\<close>.
\<close>

lemma precompute_returns:
  assumes "\<forall>leaf_node\<in>set leaf_samples. \<forall>s\<in>set leaf_node. get_outcome d s < num_classes st"
  shows "\<exists>pv calls. precompute_prediction_values st leaf_samples d = Inr (pv, calls)"
proof -
  have "\<exists>r. leaf_loop st leaf_samples d [0..<length leaf_samples]
          (replicate (length leaf_samples) [], []) = Inr r"
    by (rule leaf_loop_returns[OF assms]) simp
  then show ?thesis by (auto simp: precompute_prediction_values_def Let_def)
qed

text \<open>A leaf that has samples gets a vector of \<open>num_classes\<close> entries, whatever its weight.\<close>

lemma leaf_with_samples_not_empty:
  assumes "precompute_prediction_values st leaf_samples d = Inr (pv, calls)"
    and "i < length leaf_samples" "leaf_samples ! i \<noteq> []"
  shows "length (pv_values pv ! i) = num_classes st"
    and "0 < num_classes st \<Longrightarrow> pv_empty pv i = Inr False"
proof -
  from precompute_result(5)[OF assms] obtain c0 c1 where
    "leaf_averages st d (leaf_samples ! i) [] c0 = Inr (pv_values pv ! i, c1)" by blast
  from leaf_averages_result[OF this] show l: "length (pv_values pv ! i) = num_classes st"
    by simp
  from precompute_result(2)[OF assms(1)] assms(2) have "i < length (pv_values pv)" by simp
  with l show "0 < num_classes st \<Longrightarrow> pv_empty pv i = Inr False"
    by (auto simp: pv_empty_def)
qed

section \<open>One entry for each leaf\<close>

text \<open>
  Claim C10. When \<open>precompute_prediction_values\<close> returns, the table has one entry for
  each leaf, at the leaf's position. For a leaf without samples the body of the loop
  leaves the vectors and the calls to the data accessor as they are, and the entry stays
  the empty vector; for a leaf with samples the entry is the vector computed from that leaf
  alone. The calls to the accessor are, leaf by leaf and sample by sample, one
  \<open>get_outcome\<close> and two \<open>get_weight\<close> for each sample.
\<close>

theorem precompute_one_entry_per_leaf:
  assumes "precompute_prediction_values st leaf_samples d = Inr (pv, calls)"
  shows "get_num_nodes pv = length leaf_samples \<and>
         (\<forall>i<length leaf_samples.
            (leaf_samples ! i = [] \<longrightarrow>
               pv_values pv ! i = [] \<and> (\<forall>s. leaf_body st leaf_samples d i s = Inr s)) \<and>
            (leaf_samples ! i \<noteq> [] \<longrightarrow>
               (\<exists>c0 c1. leaf_averages st d (leaf_samples ! i) [] c0 =
                          Inr (pv_values pv ! i, c1)))) \<and>
         calls = concat (map (\<lambda>leaf_node.
                    concat (map (\<lambda>s. [GetOutcome s, GetWeight s, GetWeight s]) leaf_node))
                  leaf_samples)"
  using precompute_result[OF assms]
  by (simp add: get_num_nodes_def leaf_body_empty_leaf)

text \<open>
  Two classes and two leaves, the first without samples: the table is
  \<open>[[], [1/4, 3/4]]\<close>, and the accessor is called for the samples 1 and 3 only.
\<close>

theorem precompute_one_entry_per_leaf_witness:
  "precompute_prediction_values \<lparr>num_classes = 2, debias = (\<lambda>a b n. a)\<rparr> [[], [1, 3]]
     \<lparr>get_outcome = (\<lambda>s. s div 2), get_weight = (\<lambda>s. Finite (real s))\<rparr> =
   Inr (PredictionValues [[], [Finite (1 / 4), Finite (3 / 4)]] 2,
        [GetOutcome 1, GetWeight 1, GetWeight 1, GetOutcome 3, GetWeight 3, GetWeight 3]) \<and>
   get_num_nodes (PredictionValues [[], [Finite (1 / 4), Finite (3 / 4)]] 2) =
     length [[], [1, 3 :: nat]] \<and>
   pv_values (PredictionValues [[], [Finite (1 / 4), Finite (3 / 4)]] 2) ! 0 = []"
proof -
  let ?st = "\<lparr>num_classes = 2, debias = (\<lambda>a b n. a)\<rparr>"
  let ?d = "\<lparr>get_outcome = (\<lambda>s. s div 2), get_weight = (\<lambda>s. Finite (real s))\<rparr>"
  let ?pv = "PredictionValues [[], [Finite (1 / 4), Finite (3 / 4)]] 2"
  have rep: "replicate 2 x = [x, x]" for x :: "'a"
    by (simp add: numeral_2_eq_2)
  have r: "precompute_prediction_values ?st [[], [1, 3]] ?d =
      Inr (?pv, [GetOutcome 1, GetWeight 1, GetWeight 1, GetOutcome 3, GetWeight 3, GetWeight 3])"
    by (simp add: precompute_prediction_values_def leaf_body_def leaf_averages_def resize_def
          rep upt_conv_Cons PredictionValues_def)
  note inst = precompute_one_entry_per_leaf[OF r]
  from inst have "get_num_nodes ?pv = length [[], [1, 3 :: nat]]" by blast
  moreover from inst have "pv_values ?pv ! 0 = []" by simp
  ultimately show ?thesis using r by blast
qed

section \<open>Leaves of negligible weight\<close>

text \<open>
  Claim C1. A leaf that has samples but a total weight of at most \<open>1e-16\<close> in absolute
  value should be recorded as empty, like a leaf without samples. It is not: with two
  classes, a first leaf without samples and a second leaf holding one sample of weight 0,
  the table flags the first leaf empty and the second one not, its vector being the two
  sums of weights \<open>[0, 0]\<close> that the loop over the samples left.
\<close>

theorem tiny_weight_leaf_not_marked_empty:
  "precompute_prediction_values \<lparr>num_classes = 2, debias = (\<lambda>a b n. a)\<rparr> [[], [0]]
     \<lparr>get_outcome = (\<lambda>s. 0), get_weight = (\<lambda>s. Finite 0)\<rparr> =
   Inr (PredictionValues [[], [Finite 0, Finite 0]] 2,
        [GetOutcome 0, GetWeight 0, GetWeight 0]) \<and>
   pv_empty (PredictionValues [[], [Finite 0, Finite 0]] 2) 0 = Inr True \<and>
   pv_empty (PredictionValues [[], [Finite 0, Finite 0]] 2) 1 = Inr False"
proof -
  have rep: "replicate 2 x = [x, x]" for x :: "'a"
    by (simp add: numeral_2_eq_2)
  show ?thesis
    by (simp add: precompute_prediction_values_def leaf_body_def leaf_averages_def resize_def
          rep upt_conv_Cons PredictionValues_def pv_empty_def)
qed

text \<open>
  Claim C5. With non-negative weights and class labels below \<open>num_classes\<close>, the vector
  of every leaf that is not flagged empty should sum to 1. It does not for a leaf of
  negligible weight: with two classes and one leaf of two samples, of classes 0 and 1 and
  of weight \<open>2^-60\<close> each, the leaf is not flagged empty and its vector is
  \<open>[2^-60, 2^-60]\<close>, which sums to \<open>2^-59\<close>.
\<close>

theorem tiny_weight_leaf_not_normalised:
  "precompute_prediction_values \<lparr>num_classes = 2, debias = (\<lambda>a b n. a)\<rparr> [[0, 1]]
     \<lparr>get_outcome = (\<lambda>s. s), get_weight = (\<lambda>s. Finite (1 / 2 ^ 60))\<rparr> =
   Inr (PredictionValues [[Finite (1 / 2 ^ 60), Finite (1 / 2 ^ 60)]] 2,
        [GetOutcome 0, GetWeight 0, GetWeight 0, GetOutcome 1, GetWeight 1, GetWeight 1]) \<and>
   pv_empty (PredictionValues [[Finite (1 / 2 ^ 60), Finite (1 / 2 ^ 60)]] 2) 0 = Inr False \<and>
   dadd (Finite (1 / 2 ^ 60)) (Finite (1 / 2 ^ 60)) = Finite (1 / 2 ^ 59) \<and>
   Finite (1 / 2 ^ 59) \<noteq> Finite 1"
proof -
  have rep: "replicate 2 x = [x, x]" for x :: "'a"
    by (simp add: numeral_2_eq_2)
  show ?thesis
    by (simp add: precompute_prediction_values_def leaf_body_def leaf_averages_def resize_def
          rep upt_conv_Cons PredictionValues_def pv_empty_def)
qed

section \<open>Leaves of sufficient weight\<close>

lemma sum_list_update_add:
  "k < length rs \<Longrightarrow> sum_list (rs[k := rs ! k + v]) = sum_list rs + (v::real)"
proof (induction rs arbitrary: k)
  case Nil
  then show ?case by simp
next
  case (Cons r rs)
  then show ?case by (cases k) simp_all
qed

lemma sample_loop_finite:
  assumes "\<forall>s\<in>set samples. get_outcome d s < length rs \<and> 0 \<le> w s \<and>
             get_weight d s = Finite (w s)"
    and "\<forall>r\<in>set rs. 0 \<le> r"
  shows "\<exists>rs' c'. sample_loop d samples (map Finite rs, Finite w0, c) =
             Inr (map Finite rs', Finite (w0 + sum_list (map w samples)), c') \<and>
           length rs' = length rs \<and> (\<forall>r\<in>set rs'. 0 \<le> r) \<and>
           sum_list rs' = sum_list rs + sum_list (map w samples)"
  using assms
proof (induction samples arbitrary: rs w0 c)
  case Nil
  then show ?case by (intro exI[of _ rs] exI[of _ c]) simp
next
  case (Cons s samples)
  let ?k = "get_outcome d s"
  let ?rs = "rs[?k := rs ! ?k + w s]"
  from Cons.prems have k: "?k < length rs" and w: "0 \<le> w s" "get_weight d s = Finite (w s)"
    by simp_all
  have upd: "(map Finite rs)[?k := dadd (map Finite rs ! ?k) (get_weight d s)] = map Finite ?rs"
    using k w by (simp add: map_update)
  have pos: "\<forall>r\<in>set ?rs. 0 \<le> r"
  proof
    fix r assume "r \<in> set ?rs"
    then have "r = rs ! ?k + w s \<or> r \<in> set rs"
      using set_update_subset_insert[of rs ?k "rs ! ?k + w s"] by auto
    with Cons.prems(2) k w show "0 \<le> r" by (auto simp: nth_mem)
  qed
  from Cons.prems(1) have rest: "\<forall>x\<in>set samples. get_outcome d x < length ?rs \<and> 0 \<le> w x \<and>
             get_weight d x = Finite (w x)"
    by simp
  from Cons.IH[OF rest pos, of "w0 + w s" "c @ [GetOutcome s, GetWeight s, GetWeight s]"]
  obtain rs' c' where
    l: "sample_loop d samples (map Finite ?rs, Finite (w0 + w s),
          c @ [GetOutcome s, GetWeight s, GetWeight s]) =
        Inr (map Finite rs', Finite (w0 + w s + sum_list (map w samples)), c')"
    and r: "length rs' = length ?rs" "\<forall>r\<in>set rs'. 0 \<le> r"
      "sum_list rs' = sum_list ?rs + sum_list (map w samples)"
    by blast
  have "sample_loop d (s # samples) (map Finite rs, Finite w0, c) =
        sample_loop d samples
          ((map Finite rs)[?k := dadd (map Finite rs ! ?k) (get_weight d s)],
           dadd (Finite w0) (get_weight d s), c @ [GetOutcome s, GetWeight s, GetWeight s])"
    using k by (simp add: Let_def)
  also have "\<dots> = sample_loop d samples (map Finite ?rs, Finite (w0 + w s),
          c @ [GetOutcome s, GetWeight s, GetWeight s])"
    unfolding upd by (simp add: w(2))
  also have "\<dots> = Inr (map Finite rs', Finite (w0 + sum_list (map w (s # samples))), c')"
    using l by (simp add: add.assoc)
  finally have "sample_loop d (s # samples) (map Finite rs, Finite w0, c) =
        Inr (map Finite rs', Finite (w0 + sum_list (map w (s # samples))), c')" .
  moreover have "sum_list rs' = sum_list rs + sum_list (map w (s # samples))"
    using r(3) k by (simp add: sum_list_update_add)
  ultimately show ?case using r(1,2) by auto
qed

lemma normalize_loop_nth:
  "distinct clss \<Longrightarrow> \<forall>c\<in>set clss. c < length a \<Longrightarrow> i < length a \<Longrightarrow>
   normalize_loop w clss a ! i = (if i \<in> set clss then ddiv (a ! i) w else a ! i)"
proof (induction clss arbitrary: a)
  case Nil
  then show ?case by simp
next
  case (Cons c clss)
  then show ?case by (auto simp: nth_list_update)
qed

lemma normalize_loop_all: "normalize_loop w [0..<length a] a = map (\<lambda>x. ddiv x w) a"
  by (rule nth_equalityI) (simp_all add: normalize_loop_length normalize_loop_nth)

text \<open>
  In exact arithmetic, a leaf whose labels are below \<open>num_classes\<close> and whose weights
  are non-negative with a sum above \<open>1e-16\<close> gets a vector of \<open>num_classes\<close>
  non-negative entries that sum to 1.
\<close>

lemma leaf_averages_normalised:
  assumes "\<forall>s\<in>set leaf_node. get_outcome d s < num_classes st \<and> 0 \<le> w s \<and>
             get_weight d s = Finite (w s)"
    and "1 / 10 ^ 16 < sum_list (map w leaf_node)"
  shows "\<exists>rs c. leaf_averages st d leaf_node [] c0 = Inr (map Finite rs, c) \<and>
           length rs = num_classes st \<and> (\<forall>r\<in>set rs. 0 \<le> r) \<and> sum_list rs = 1"
proof -
  let ?n = "num_classes st"
  let ?W = "sum_list (map w leaf_node)"
  have z: "resize ?n [] = map Finite (replicate ?n 0)" by (simp add: resize_def)
  have "\<exists>rs' c'. sample_loop d leaf_node (map Finite (replicate ?n 0), Finite 0, c0) =
             Inr (map Finite rs', Finite (0 + ?W), c') \<and>
           length rs' = length (replicate ?n (0::real)) \<and> (\<forall>r\<in>set rs'. 0 \<le> r) \<and>
           sum_list rs' = sum_list (replicate ?n 0) + ?W"
    by (rule sample_loop_finite) (use assms(1) in auto)
  then obtain rs' c' where
    l0: "sample_loop d leaf_node (map Finite (replicate ?n 0), Finite 0, c0) =
             Inr (map Finite rs', Finite (0 + ?W), c')"
    and r0: "length rs' = length (replicate ?n (0::real))" "\<forall>r\<in>set rs'. 0 \<le> r"
      "sum_list rs' = sum_list (replicate ?n 0) + ?W"
    by blast
  from l0 have
    l: "sample_loop d leaf_node (resize ?n [], Finite 0, c0) = Inr (map Finite rs', Finite ?W, c')"
    by (simp add: z)
  from r0 have r: "length rs' = ?n" "\<forall>r\<in>set rs'. 0 \<le> r" "sum_list rs' = ?W"
    by (simp_all add: sum_list_replicate)
  from assms(2) have W: "0 < ?W" "\<not> \<bar>?W\<bar> \<le> 1 / 10 ^ 16"
    by (simp_all add: less_le_trans[of 0 "1 / 10 ^ 16"])
  let ?rs = "map (\<lambda>r. r / ?W) rs'"
  have "normalize_loop (Finite ?W) [0..<?n] (map Finite rs') = map Finite ?rs"
    using normalize_loop_all[of "Finite ?W" "map Finite rs'"] r(1) W(1) by simp
  with l W(2) have "leaf_averages st d leaf_node [] c0 = Inr (map Finite ?rs, c')"
    by (simp add: leaf_averages_def)
  moreover have "\<forall>r\<in>set ?rs. 0 \<le> r" using r(2) W(1) by simp
  moreover have "sum_list ?rs = 1"
  proof -
    have "sum_list ?rs = sum_list rs' / ?W"
      by (simp add: divide_inverse sum_list_mult_const)
    with r(3) W(1) show ?thesis by simp
  qed
  ultimately show ?thesis using r(1) by (intro exI[of _ ?rs] exI[of _ c']) simp
qed

section \<open>A symmetric scenario\<close>

text \<open>
  Two classes, groups of two, the average \<open>[0.5, 0.5]\<close> and four leaves whose class-0
  frequencies are \<open>0.2, 0.8, 0.3, 0.7\<close>. In exact arithmetic the deviations of each
  group cancel: both groups are good, \<open>var_between\<close> is 0, \<open>var_total\<close> and
  \<open>group_noise\<close> are \<open>0.065\<close>, and each entry of the result is what the debiaser
  returns on \<open>(0, 0.065, 2)\<close>, for any debiaser \<open>D\<close>.
\<close>

lemma symmetric_scenario_values:
  fixes D :: "double \<Rightarrow> double \<Rightarrow> double \<Rightarrow> double"
  defines "lv \<equiv> PredictionValues
     [[Finite (2 / 10), Finite (8 / 10)], [Finite (8 / 10), Finite (2 / 10)],
      [Finite (3 / 10), Finite (7 / 10)], [Finite (7 / 10), Finite (3 / 10)]] 2"
    and "acc \<equiv> \<lparr>num_good_groups = Finite 2, psi_squared = Finite (13 / 50),
                  psi_grouped_squared = Finite 0\<rparr>"
  shows "class_accum lv 2 [Finite (1 / 2), Finite (1 / 2)] 0 = Inr acc"
    and "var_between acc = Finite 0"
    and "var_total 2 acc = Finite (65 / 1000)"
    and "group_noise 2 acc = Finite (65 / 1000)"
    and "compute_variance \<lparr>num_classes = 2, debias = D\<rparr> [Finite (1 / 2), Finite (1 / 2)] lv 2 =
           Inr [D (Finite 0) (Finite (65 / 1000)) (Finite 2),
                D (Finite 0) (Finite (65 / 1000)) (Finite 2)]"
proof -
  show a0: "class_accum lv 2 [Finite (1 / 2), Finite (1 / 2)] 0 = Inr acc"
    by (simp add: lv_def acc_def class_accum_def get_num_nodes_def PredictionValues_def
          group_body_def pv_empty_def pv_get_def accum_init_def dsub_def of_size_def
          upt_conv_Cons Let_def power2_eq_square)
  have a1: "class_accum lv 2 [Finite (1 / 2), Finite (1 / 2)] (Suc 0) = Inr acc"
    by (simp add: lv_def acc_def class_accum_def get_num_nodes_def PredictionValues_def
          group_body_def pv_empty_def pv_get_def accum_init_def dsub_def of_size_def
          upt_conv_Cons Let_def)
  show b: "var_between acc = Finite 0"
    by (simp add: acc_def var_between_def)
  show t: "var_total 2 acc = Finite (65 / 1000)"
    by (simp add: acc_def var_total_def of_size_def)
  show n: "group_noise 2 acc = Finite (65 / 1000)"
    by (simp add: group_noise_def b t dsub_def of_size_def)
  have rep: "replicate 2 (Finite 0) = [Finite 0, Finite 0]"
    by (simp add: numeral_2_eq_2)
  show "compute_variance \<lparr>num_classes = 2, debias = D\<rparr> [Finite (1 / 2), Finite (1 / 2)] lv 2 =
           Inr [D (Finite 0) (Finite (65 / 1000)) (Finite 2),
                D (Finite 0) (Finite (65 / 1000)) (Finite 2)]"
    by (simp add: compute_variance_def a0 a1 var_debiased_def b n upt_conv_Cons rep)
      (simp add: acc_def)
qed

end
